theory Spec2Isabelle
  imports Main "HOL-Library.Word"
begin

unbundle bit_operations_syntax

section \<open>Bytes, errors and the serial port\<close>

text \<open>
  A Python \<open>bytes\<close> object is a list of 8-bit words; a Python \<open>int\<close> is an \<open>int\<close>.
  Indexing a \<open>bytes\<close> object gives an \<open>int\<close> in \<open>0..255\<close>: that is \<open>uint\<close>.
\<close>

type_synonym byte = "8 word"

text \<open>
  The exceptions the protocol code raises, one constructor for each distinct failure:
  \<^item> \<open>PayloadTooLarge\<close>: \<^verbatim>\<open>ValueError("Payload too large: ...")\<close> of \<open>UartPacket.encode\<close>;
  \<^item> \<open>ByteRange\<close>: the \<^verbatim>\<open>ValueError\<close> of \<^verbatim>\<open>bytes([...])\<close> on a value outside \<open>range(256)\<close>;
  \<^item> \<open>PacketTooShort\<close>: \<^verbatim>\<open>ValueError("Packet too short")\<close>;
  \<^item> \<open>BadMagic\<close>: \<^verbatim>\<open>ValueError("Invalid magic: ...")\<close>;
  \<^item> \<open>IncompletePacket\<close>: \<^verbatim>\<open>ValueError("Incomplete packet")\<close>;
  \<^item> \<open>ChecksumMismatch\<close>: \<^verbatim>\<open>ValueError("CRC mismatch")\<close>;
  \<^item> \<open>StructError\<close>: \<^verbatim>\<open>struct.error\<close> of \<open>struct.pack\<close> and \<open>struct.unpack\<close>;
  \<^item> \<open>NotEnoughData\<close>: \<^verbatim>\<open>ValueError("Not enough data for header")\<close> (or footer);
  \<^item> \<open>InvalidFrameSize\<close>: \<^verbatim>\<open>ValueError("Invalid HUB75 data size: ...")\<close> (or OLED).
\<close>

datatype error =
    PayloadTooLarge
  | ByteRange
  | PacketTooShort
  | BadMagic
  | IncompletePacket
  | ChecksumMismatch
  | StructError
  | NotEnoughData
  | InvalidFrameSize

text \<open>Python's \<^verbatim>\<open>bytes([v1, ..., vn])\<close>: every value must lie in \<open>range(256)\<close>.\<close>

definition bytes_of :: "int list \<Rightarrow> error + byte list" where
  "bytes_of vs =
     (if list_all (\<lambda>v. 0 \<le> v \<and> v < 256) vs then Inr (map word_of_int vs) else Inl ByteRange)"

text \<open>Python's slice \<^verbatim>\<open>data[i:j]\<close> for \<open>0 \<le> i\<close> and \<open>0 \<le> j\<close>: it never raises.\<close>

definition slice :: "'a list \<Rightarrow> nat \<Rightarrow> nat \<Rightarrow> 'a list" where
  "slice data i j = drop i (take j data)"

section \<open>Short form: \<open>UartPacket\<close> (run\_hardware\_tests.py, run\_extended\_tests.py)\<close>

definition MAGIC :: "byte list" where
  "MAGIC = [0xAA, 0x55]"

definition MAX_PAYLOAD :: nat where
  "MAX_PAYLOAD = 255"

text \<open>The loop \<^verbatim>\<open>for b in payload: crc ^= b\<close> on Python integers.\<close>

definition xor_bytes :: "int \<Rightarrow> byte list \<Rightarrow> int" where
  "xor_bytes crc payload = fold (\<lambda>b c. c XOR uint b) payload crc"

definition encode :: "int \<Rightarrow> byte list \<Rightarrow> error + byte list" where
  "encode cmd payload =
     (if length payload > MAX_PAYLOAD then Inl PayloadTooLarge
      else case bytes_of [cmd, int (length payload)] of
        Inl e \<Rightarrow> Inl e
      | Inr hb \<Rightarrow>
          let header = MAGIC @ hb;
              crc = xor_bytes (cmd XOR int (length payload)) payload
          in (case bytes_of [crc AND 0xFF] of
                Inl e \<Rightarrow> Inl e
              | Inr cb \<Rightarrow> Inr (header @ payload @ cb)))"

definition decode :: "byte list \<Rightarrow> error + (int \<times> byte list)" where
  "decode data =
     (if length data < 5 then Inl PacketTooShort
      else if slice data 0 2 \<noteq> MAGIC then Inl BadMagic
      else
        let cmd = uint (data ! 2);
            len = unat (data ! 3)
        in if length data < 4 + len + 1 then Inl IncompletePacket
           else
             let payload = slice data 4 (4 + len);
                 received_crc = uint (data ! (4 + len));
                 expected_crc = xor_bytes (cmd XOR int len) payload AND 0xFF
             in if received_crc \<noteq> expected_crc then Inl ChecksumMismatch
                else Inr (cmd, payload))"

text \<open>
  The noise injection of \<open>UartSimulator.send_packet\<close> (run\_extended\_tests.py):
  \<^verbatim>\<open>byte ^= (1 << k)\<close> on the byte at position \<open>i\<close> of a packet.
\<close>

definition flip_bit_at :: "byte list \<Rightarrow> nat \<Rightarrow> nat \<Rightarrow> byte list" where
  "flip_bit_at data i k = data[i := data ! i XOR push_bit k 1]"

subsection \<open>Receiving a short-form packet from the serial port\<close>

text \<open>
  The serial port is the list of bytes it will still deliver before its read time-out
  expires. \<^verbatim>\<open>ser.read(n)\<close> returns the next \<open>n\<close> bytes, or fewer when the port runs
  dry: \<open>take n\<close> of the pending bytes, \<open>drop n\<close> of them staying behind. All pending
  bytes are taken to arrive well inside the time limit of \<open>receive_packet\<close>, so its search
  loop ends without a match only when the port has run dry.
\<close>

record SerialInterface =
  connected :: bool
  rx :: "byte list"

text \<open>
  The search loop of \<open>receive_packet\<close> in run\_hardware\_tests.py: the rest of the stream
  behind the magic bytes, or \<open>None\<close> when the loop times out.
\<close>

fun seek_magic :: "byte list \<Rightarrow> byte list option" where
  "seek_magic [] = None"
| "seek_magic (byte # s) =
     (if byte = 0xAA then
        (case s of
           [] \<Rightarrow> None
         | next_byte # s' \<Rightarrow> if next_byte = 0x55 then Some s' else seek_magic s')
      else seek_magic s)"

definition receive_packet :: "SerialInterface \<Rightarrow> (int \<times> byte list) option \<times> SerialInterface" where
  "receive_packet self =
     (if \<not> connected self then (None, self)
      else case seek_magic (rx self) of
        None \<Rightarrow> (None, self\<lparr>rx := []\<rparr>)
      | Some s1 \<Rightarrow>
          let header = take 2 s1; s2 = drop 2 s1
          in if length header < 2 then (None, self\<lparr>rx := s2\<rparr>)
             else
               let cmd = uint (header ! 0);
                   len = unat (header ! 1);
                   data = take (len + 1) s2;
                   s3 = drop (len + 1) s2
               in if length data < len + 1 then (None, self\<lparr>rx := s3\<rparr>)
                  else
                    let payload = slice data 0 len;
                        received_crc = uint (data ! len);
                        expected_crc = xor_bytes (cmd XOR int len) payload AND 0xFF
                    in if received_crc \<noteq> expected_crc then (None, self\<lparr>rx := s3\<rparr>)
                       else (Some (cmd, payload), self\<lparr>rx := s3\<rparr>))"

section \<open>Extended form (run\_hardware\_tests\_v2.py)\<close>

subsection \<open>Python's \<open>struct\<close> module, little-endian standard sizes\<close>

text \<open>
  The format codes the protocol uses under the prefix \<^verbatim>\<open><\<close> (little-endian, no
  padding): \<^verbatim>\<open>B\<close> is an unsigned byte, \<^verbatim>\<open>H\<close> an unsigned 16-bit integer.
  \<open>struct.pack\<close> raises \<open>struct.error\<close> on a value out of the code's range or on a
  wrong number of values; \<open>struct.unpack\<close> raises it unless the buffer has exactly
  \<open>calcsize\<close> bytes.
\<close>

datatype fmt = B | H

fun fmt_size :: "fmt \<Rightarrow> nat" where
  "fmt_size B = 1"
| "fmt_size H = 2"

definition calcsize :: "fmt list \<Rightarrow> nat" where
  "calcsize fs = sum_list (map fmt_size fs)"

fun struct_pack :: "fmt list \<Rightarrow> int list \<Rightarrow> error + byte list" where
  "struct_pack [] [] = Inr []"
| "struct_pack (B # fs) (v # vs) =
     (if v < 0 \<or> 255 < v then Inl StructError
      else case struct_pack fs vs of
        Inl e \<Rightarrow> Inl e
      | Inr bs \<Rightarrow> Inr (word_of_int v # bs))"
| "struct_pack (H # fs) (v # vs) =
     (if v < 0 \<or> 65535 < v then Inl StructError
      else case struct_pack fs vs of
        Inl e \<Rightarrow> Inl e
      | Inr bs \<Rightarrow> Inr (word_of_int (v mod 256) # word_of_int (v div 256) # bs))"
| "struct_pack _ _ = Inl StructError"

fun unpack_fields :: "fmt list \<Rightarrow> byte list \<Rightarrow> int list" where
  "unpack_fields (B # fs) (b # bs) = uint b # unpack_fields fs bs"
| "unpack_fields (H # fs) (lo # hi # bs) = (uint lo + 256 * uint hi) # unpack_fields fs bs"
| "unpack_fields _ _ = []"

definition struct_unpack :: "fmt list \<Rightarrow> byte list \<Rightarrow> error + int list" where
  "struct_unpack fs data =
     (if length data \<noteq> calcsize fs then Inl StructError else Inr (unpack_fields fs data))"

subsection \<open>Constants and message types\<close>

definition SYNC_BYTE_1 :: int where "SYNC_BYTE_1 = 0xAA"
definition SYNC_BYTE_2 :: int where "SYNC_BYTE_2 = 0x55"
definition SYNC_BYTE_3 :: int where "SYNC_BYTE_3 = 0xCC"
definition END_BYTE :: int where "END_BYTE = 0x55"

definition HUB75_RGB_SIZE :: nat where "HUB75_RGB_SIZE = 128 * 32 * 3"
definition FRAGMENT_SIZE :: nat where "FRAGMENT_SIZE = 1024"

datatype MsgType =
    PING | PONG | ACK | NACK | STATUS | FRAME_REQUEST | RESEND_FRAG
  | HUB75_FRAME | HUB75_FRAG | OLED_FRAME | OLED_FRAG
  | SET_FPS | SET_BRIGHTNESS | STATS_REQUEST | STATS_RESPONSE

text \<open>\<open>MsgType\<close> is an \<open>IntEnum\<close>: a member is used as its integer value.\<close>

fun MsgType_value :: "MsgType \<Rightarrow> int" where
  "MsgType_value PING = 0x01"
| "MsgType_value PONG = 0x02"
| "MsgType_value ACK = 0x03"
| "MsgType_value NACK = 0x04"
| "MsgType_value STATUS = 0x05"
| "MsgType_value FRAME_REQUEST = 0x06"
| "MsgType_value RESEND_FRAG = 0x07"
| "MsgType_value HUB75_FRAME = 0x10"
| "MsgType_value HUB75_FRAG = 0x11"
| "MsgType_value OLED_FRAME = 0x12"
| "MsgType_value OLED_FRAG = 0x13"
| "MsgType_value SET_FPS = 0x20"
| "MsgType_value SET_BRIGHTNESS = 0x21"
| "MsgType_value STATS_REQUEST = 0x30"
| "MsgType_value STATS_RESPONSE = 0x31"

subsection \<open>Header and footer\<close>

record PacketHeader =
  sync1 :: int
  sync2 :: int
  sync3 :: int
  msg_type :: int
  payload_len :: int
  frame_num :: int
  frag_index :: int
  frag_total :: int

definition PacketHeader_SIZE :: nat where
  "PacketHeader_SIZE = 10"

text \<open>The format string \<^verbatim>\<open>'<BBBHHHBB'\<close> of \<open>PacketHeader.pack\<close> and \<open>PacketHeader.unpack\<close>.\<close>

definition header_fmt :: "fmt list" where
  "header_fmt = [B, B, B, H, H, H, B, B]"

definition PacketHeader_init :: "int \<Rightarrow> int \<Rightarrow> int \<Rightarrow> int \<Rightarrow> int \<Rightarrow> PacketHeader" where
  "PacketHeader_init mt plen fnum fidx ftot =
     \<lparr>sync1 = SYNC_BYTE_1, sync2 = SYNC_BYTE_2, sync3 = SYNC_BYTE_3, msg_type = mt,
      payload_len = plen, frame_num = fnum, frag_index = fidx, frag_total = ftot\<rparr>"

definition PacketHeader_pack :: "PacketHeader \<Rightarrow> error + byte list" where
  "PacketHeader_pack self =
     struct_pack header_fmt
       [sync1 self, sync2 self, sync3 self, msg_type self, payload_len self, frame_num self,
        frag_index self, frag_total self]"

text \<open>
  \<open>PacketHeader.unpack\<close>. \<open>struct.unpack\<close> returns one value for each format code, so the
  last branch (a tuple of another length) is never taken.
\<close>

definition PacketHeader_unpack :: "byte list \<Rightarrow> error + PacketHeader" where
  "PacketHeader_unpack data =
     (if length data < PacketHeader_SIZE then Inl NotEnoughData
      else case struct_unpack header_fmt (slice data 0 10) of
        Inl e \<Rightarrow> Inl e
      | Inr [s1, s2, s3, mt, plen, fnum, fidx, ftot] \<Rightarrow>
          Inr ((PacketHeader_init mt plen fnum fidx ftot)\<lparr>sync1 := s1, sync2 := s2, sync3 := s3\<rparr>)
      | Inr _ \<Rightarrow> Inl StructError)"

record PacketFooter =
  checksum :: int
  end_byte :: int

definition PacketFooter_SIZE :: nat where
  "PacketFooter_SIZE = 3"

definition PacketFooter_init :: "int \<Rightarrow> PacketFooter" where
  "PacketFooter_init cs = \<lparr>checksum = cs, end_byte = END_BYTE\<rparr>"

definition PacketFooter_pack :: "PacketFooter \<Rightarrow> error + byte list" where
  "PacketFooter_pack self = struct_pack [H, B] [checksum self, end_byte self]"

definition PacketFooter_unpack :: "byte list \<Rightarrow> error + PacketFooter" where
  "PacketFooter_unpack data =
     (if length data < PacketFooter_SIZE then Inl NotEnoughData
      else case struct_unpack [H, B] (slice data 0 3) of
        Inl e \<Rightarrow> Inl e
      | Inr [cs, eb] \<Rightarrow> Inr ((PacketFooter_init cs)\<lparr>end_byte := eb\<rparr>)
      | Inr _ \<Rightarrow> Inl StructError)"

subsection \<open>Building packets\<close>

definition calc_checksum :: "byte list \<Rightarrow> int" where
  "calc_checksum data = fold (\<lambda>b total. total + uint b) data 0 AND 0xFFFF"

definition build_packet :: "int \<Rightarrow> byte list \<Rightarrow> int \<Rightarrow> int \<Rightarrow> int \<Rightarrow> error + byte list" where
  "build_packet mt payload fnum fidx ftot =
     (let header = PacketHeader_init mt (int (length payload)) fnum fidx ftot
      in case PacketHeader_pack header of
           Inl e \<Rightarrow> Inl e
         | Inr header_bytes \<Rightarrow>
             let cs = calc_checksum header_bytes + calc_checksum payload;
                 footer = PacketFooter_init (cs AND 0xFFFF)
             in (case PacketFooter_pack footer of
                   Inl e \<Rightarrow> Inl e
                 | Inr footer_bytes \<Rightarrow> Inr (header_bytes @ payload @ footer_bytes)))"

definition build_hub75_frame_packet :: "byte list \<Rightarrow> int \<Rightarrow> error + byte list" where
  "build_hub75_frame_packet rgb_data fnum =
     (if length rgb_data \<noteq> HUB75_RGB_SIZE then Inl InvalidFrameSize
      else build_packet (MsgType_value HUB75_FRAME) rgb_data fnum 0 1)"




subsection \<open>Receiving an extended-form packet\<close>

text \<open>
  The search loop of \<open>receive_packet\<close> in run\_hardware\_tests\_v2.py: the rest of the
  stream behind the three sync bytes, or \<open>None\<close> when the loop times out.
\<close>

fun seek_sync :: "byte list \<Rightarrow> byte list option" where
  "seek_sync [] = None"
| "seek_sync (byte1 # s) =
     (if uint byte1 = SYNC_BYTE_1 then
        (case s of
           [] \<Rightarrow> None
         | byte2 # s' \<Rightarrow>
             if uint byte2 = SYNC_BYTE_2 then
               (case s' of
                  [] \<Rightarrow> None
                | byte3 # s'' \<Rightarrow> if uint byte3 = SYNC_BYTE_3 then Some s'' else seek_sync s'')
             else seek_sync s')
      else seek_sync s)"

text \<open>
  What \<open>receive_packet\<close> does once the header is parsed (its lines from \<open># Read payload\<close>
  to the \<open>return\<close>): read the payload and the footer, compare the checksums. The message
  printed on a mismatch is not modelled.
\<close>

definition receive_body ::
  "byte list \<Rightarrow> PacketHeader \<Rightarrow> SerialInterface \<Rightarrow>
     (error + (PacketHeader \<times> byte list \<times> PacketFooter) option) \<times> SerialInterface" where
  "receive_body header_data header self =
     (let n = (if payload_len header > 0 then nat (payload_len header) else 0);
          payload = take n (rx self);
          self1 = self\<lparr>rx := drop n (rx self)\<rparr>
      in if payload_len header > 0 \<and> int (length payload) < payload_len header
         then (Inr None, self1)
         else
           let footer_data = take PacketFooter_SIZE (rx self1);
               self2 = self1\<lparr>rx := drop PacketFooter_SIZE (rx self1)\<rparr>
           in if length footer_data < PacketFooter_SIZE then (Inr None, self2)
              else (case PacketFooter_unpack footer_data of
                      Inl e \<Rightarrow> (Inl e, self2)
                    | Inr footer \<Rightarrow>
                        let expected_checksum =
                              (calc_checksum header_data + calc_checksum payload) AND 0xFFFF
                        in if checksum footer \<noteq> expected_checksum then (Inr None, self2)
                           else (Inr (Some (header, payload, footer)), self2)))"

definition receive_packet_v2 ::
  "SerialInterface \<Rightarrow>
     (error + (PacketHeader \<times> byte list \<times> PacketFooter) option) \<times> SerialInterface" where
  "receive_packet_v2 self =
     (if \<not> connected self then (Inr None, self)
      else case seek_sync (rx self) of
        None \<Rightarrow> (Inr None, self\<lparr>rx := []\<rparr>)
      | Some s1 \<Rightarrow>
          let remaining_header = take (PacketHeader_SIZE - 3) s1;
              self1 = self\<lparr>rx := drop (PacketHeader_SIZE - 3) s1\<rparr>
          in if length remaining_header < PacketHeader_SIZE - 3 then (Inr None, self1)
             else
               let header_data = [0xAA, 0x55, 0xCC] @ remaining_header
               in (case PacketHeader_unpack header_data of
                     Inl e \<Rightarrow> (Inl e, self1)
                   | Inr header \<Rightarrow> receive_body header_data header self1))"

section \<open>Properties of the short form\<close>

lemma xor_bytes_uint: "xor_bytes (uint x) p = uint (fold (\<lambda>b c. c XOR b) p x)"
  unfolding xor_bytes_def
  by (induction p arbitrary: x) (simp_all flip: uint_xor)

lemma fold_xor_foldr: "fold (\<lambda>b c. c XOR b) p (x::byte) = x XOR foldr (XOR) p 0"
  by (induction p arbitrary: x) (simp_all add: xor.assoc)

lemma uint_and_255: "uint (w::byte) AND 0xFF = uint w"
proof -
  have "uint w AND mask 8 = uint w"
    by (simp flip: take_bit_eq_mask add: take_bit_int_eq_self uint_bounded[where 'a=8, simplified] )
  then show ?thesis by (simp add: mask_eq_exp_minus_1)
qed

lemma bytes_of_uint: "bytes_of (map uint (ws::byte list)) = Inr ws"
  unfolding bytes_of_def
  by (induction ws) (auto simp: list_all_iff uint_bounded[where 'a=8, simplified])

lemma uint_byte_of_int: "0 \<le> c \<Longrightarrow> c \<le> 255 \<Longrightarrow> uint (word_of_int c :: byte) = c"
  by (simp add: uint_word_of_int)

lemma encode_bytes:
  assumes "length payload \<le> 255"
  shows "encode (uint c) payload =
     Inr ([0xAA, 0x55, c, of_nat (length payload)] @ payload @
          [fold (\<lambda>b c. c XOR b) payload (c XOR of_nat (length payload))])"
proof -
  have len: "int (length payload) = uint (of_nat (length payload) :: byte)"
    using assms by (simp add: uint_nat unat_of_nat)
  have hb: "bytes_of [uint c, int (length payload)] = Inr [c, of_nat (length payload)]"
    using bytes_of_uint[of "[c, of_nat (length payload)]"] len by simp
  have crc: "xor_bytes (uint c XOR int (length payload)) payload
         = uint (fold (\<lambda>b c. c XOR b) payload (c XOR of_nat (length payload)))"
    by (subst len) (simp only: xor_bytes_uint flip: uint_xor)
  have cb: "bytes_of [uint (fold (\<lambda>b c. c XOR b) payload (c XOR of_nat (length payload))) AND 0xFF]
      = Inr [fold (\<lambda>b c. c XOR b) payload (c XOR of_nat (length payload))]"
    using bytes_of_uint[of "[fold (\<lambda>b c. c XOR b) payload (c XOR of_nat (length payload))]"]
    by (simp only: uint_and_255) simp
  show ?thesis
    using assms unfolding encode_def Let_def crc
    by (simp only: hb cb MAX_PAYLOAD_def MAGIC_def) simp
qed


lemma slice_magic: "2 \<le> length data \<Longrightarrow> slice data 0 2 = [data ! 0, data ! 1]"
  unfolding slice_def
  by (cases data; cases "tl data") (simp_all add: numeral_2_eq_2)

lemma slice_payload: "slice data 4 (4 + n) = take n (drop 4 data)"
  unfolding slice_def by (simp add: drop_take)

lemma expected_crc_word:
  "xor_bytes (uint c XOR int (unat l)) p AND 0xFF = uint (fold (\<lambda>b c. c XOR b) p (c XOR l))"
  by (simp only: uint_nat[symmetric] uint_xor[symmetric] xor_bytes_uint uint_and_255)

lemma decode_alt:
  "decode data =
     (if length data < 5 then Inl PacketTooShort
      else if data ! 0 \<noteq> 0xAA \<or> data ! 1 \<noteq> 0x55 then Inl BadMagic
      else if length data < 5 + unat (data ! 3) then Inl IncompletePacket
      else if data ! (4 + unat (data ! 3)) \<noteq>
              fold (\<lambda>b c. c XOR b) (take (unat (data ! 3)) (drop 4 data)) (data ! 2 XOR data ! 3)
           then Inl ChecksumMismatch
      else Inr (uint (data ! 2), take (unat (data ! 3)) (drop 4 data)))"
proof (cases "length data < 5")
  case True
  then show ?thesis by (simp add: decode_def)
next
  case False
  then have m: "slice data 0 2 = [data ! 0, data ! 1]" by (simp add: slice_magic)
  show ?thesis
    unfolding decode_def Let_def slice_payload expected_crc_word m MAGIC_def
    by (simp add: word_uint_eq_iff)
qed


lemma encode_ok:
  assumes "0 \<le> cmd" "cmd \<le> 255" "length payload \<le> 255"
  shows "encode cmd payload =
     Inr ([0xAA, 0x55, word_of_int cmd, of_nat (length payload)] @ payload @
          [fold (\<lambda>b c. c XOR b) payload (word_of_int cmd XOR of_nat (length payload))])"
  using encode_bytes[OF assms(3), of "word_of_int cmd"] assms(1,2)
  by (simp add: uint_byte_of_int)

lemma decode_frame:
  assumes "length p \<le> 255"
  shows "decode ([0xAA, 0x55, c, of_nat (length p)] @ p @
          [fold (\<lambda>b c. c XOR b) p (c XOR of_nat (length p))]) = Inr (uint c, p)"
proof -
  have n: "unat (of_nat (length p) :: byte) = length p"
    using assms by (simp add: unat_of_nat)
  show ?thesis
    by (subst decode_alt) (simp add: n nth_append)
qed

text \<open>
  Claim C1. Short-form round-trip law: for every command byte \<open>cmd\<close> in \<open>0..255\<close> and
  every payload of at most 255 bytes, \<open>encode\<close> returns a packet (it does not raise), and
  \<open>decode\<close> of that packet returns exactly \<open>(cmd, payload)\<close>.
\<close>

theorem encode_decode_roundtrip:
  assumes "0 \<le> cmd" and "cmd \<le> 255" and "length payload \<le> 255"
  shows "\<exists>pkt. encode cmd payload = Inr pkt \<and> decode pkt = Inr (cmd, payload)"
  using decode_frame[OF assms(3), of "word_of_int cmd"] encode_ok[OF assms] assms(1,2)
  by (simp add: uint_byte_of_int)

theorem encode_decode_roundtrip_witness:
  "(0::int) \<le> 1 \<and> (1::int) \<le> 255 \<and> length [10, 20, 255, 0, 0 :: byte] \<le> 255 \<and>
   encode 1 [10, 20, 255, 0, 0] = Inr [0xAA, 0x55, 1, 5, 10, 20, 255, 0, 0, 0xE5] \<and>
   decode [0xAA, 0x55, 1, 5, 10, 20, 255, 0, 0, 0xE5] = Inr (1, [10, 20, 255, 0, 0])"
proof -
  have e: "encode 1 [10, 20, 255, 0, 0] = Inr [0xAA, 0x55, 1, 5, 10, 20, 255, 0, 0, 0xE5]"
    by (simp add: encode_def bytes_of_def MAX_PAYLOAD_def MAGIC_def xor_bytes_def)
  from encode_decode_roundtrip[of 1 "[10, 20, 255, 0, 0]"] e show ?thesis by simp
qed

text \<open>
  Claim C2. Short-form \<open>encode\<close> emits the bytes \<open>AA 55 cmd len payload checksum\<close>, the
  checksum byte being the XOR of \<open>cmd\<close>, \<open>len\<close> and all payload bytes; \<open>encode\<close> of
  command \<open>0x00\<close> with an empty payload is \<open>AA 55 00 00 00\<close>, and of command \<open>0x10\<close> with
  an empty payload \<open>AA 55 10 00 10\<close>.
\<close>

theorem encode_layout:
  "(0 \<le> cmd \<and> cmd \<le> 255 \<and> length payload \<le> 255 \<longrightarrow>
      encode cmd payload =
        Inr ([0xAA, 0x55, word_of_int cmd, of_nat (length payload)] @ payload @
             [foldr (XOR) (word_of_int cmd # of_nat (length payload) # payload) 0])) \<and>
   encode 0x00 [] = Inr [0xAA, 0x55, 0x00, 0x00, 0x00] \<and>
   encode 0x10 [] = Inr [0xAA, 0x55, 0x10, 0x00, 0x10]"
proof (intro conjI impI)
  assume "0 \<le> cmd \<and> cmd \<le> 255 \<and> length payload \<le> 255"
  then show "encode cmd payload =
        Inr ([0xAA, 0x55, word_of_int cmd, of_nat (length payload)] @ payload @
             [foldr (XOR) (word_of_int cmd # of_nat (length payload) # payload) 0])"
    by (simp add: encode_ok fold_xor_foldr xor.assoc)
next
  show "encode 0x00 [] = Inr [0xAA, 0x55, 0x00, 0x00, 0x00]"
    using encode_ok[of 0 "[]"] by simp
next
  show "encode 0x10 [] = Inr [0xAA, 0x55, 0x10, 0x00, 0x10]"
    using encode_ok[of "0x10" "[]"] by simp
qed

theorem encode_layout_witness:
  "(0::int) \<le> 0xE0 \<and> (0xE0::int) \<le> 255 \<and> length [1, 2, 4 :: byte] \<le> 255 \<and>
   encode 0xE0 [1, 2, 4] = Inr [0xAA, 0x55, 0xE0, 3, 1, 2, 4, 0xE4]"
  using encode_layout[of "0xE0" "[1, 2, 4]"] by simp

text \<open>
  Claim C4. Short-form decode error taxonomy, for every buffer \<open>b\<close>: \<open>decode b\<close> fails with
  \<open>PacketTooShort\<close> exactly when \<open>b\<close> has fewer than 5 bytes; otherwise with \<open>BadMagic\<close>
  exactly when its first two bytes are not \<open>AA 55\<close>; otherwise with \<open>IncompletePacket\<close>
  exactly when the declared payload length exceeds the bytes that follow the 4-byte header
  once the checksum byte is set aside (\<open>length b - 5\<close>); otherwise with \<open>ChecksumMismatch\<close>
  exactly when the byte behind the payload differs from the XOR of \<open>cmd\<close>, \<open>len\<close> and the
  payload bytes; and it returns \<open>(cmd, payload)\<close> in all remaining cases. It raises nothing
  else.
\<close>

theorem decode_error_taxonomy:
  "(decode b = Inl PacketTooShort \<longleftrightarrow> length b < 5) \<and>
   (decode b = Inl BadMagic \<longleftrightarrow> 5 \<le> length b \<and> take 2 b \<noteq> [0xAA, 0x55]) \<and>
   (decode b = Inl IncompletePacket \<longleftrightarrow>
      5 \<le> length b \<and> take 2 b = [0xAA, 0x55] \<and> length b - 5 < unat (b ! 3)) \<and>
   (decode b = Inl ChecksumMismatch \<longleftrightarrow>
      5 \<le> length b \<and> take 2 b = [0xAA, 0x55] \<and> unat (b ! 3) \<le> length b - 5 \<and>
      b ! (4 + unat (b ! 3)) \<noteq> foldr (XOR) (b ! 2 # b ! 3 # take (unat (b ! 3)) (drop 4 b)) 0) \<and>
   (decode b = Inr r \<longleftrightarrow>
      5 \<le> length b \<and> take 2 b = [0xAA, 0x55] \<and> unat (b ! 3) \<le> length b - 5 \<and>
      b ! (4 + unat (b ! 3)) = foldr (XOR) (b ! 2 # b ! 3 # take (unat (b ! 3)) (drop 4 b)) 0 \<and>
      r = (uint (b ! 2), take (unat (b ! 3)) (drop 4 b))) \<and>
   (decode b \<notin> Inl ` {PayloadTooLarge, ByteRange, StructError, NotEnoughData, InvalidFrameSize})"
proof (cases "length b < 5")
  case True
  then show ?thesis by (simp add: decode_alt)
next
  case False
  then have m: "take 2 b = [b ! 0, b ! 1]"
    using slice_magic[of b] by (simp add: slice_def)
  from False show ?thesis
    unfolding decode_alt[of b] m fold_xor_foldr
    by (auto simp: xor.assoc)
qed

theorem decode_error_taxonomy_witness:
  "decode [0xAA, 0x55, 7] = Inl PacketTooShort \<and>
   decode [0xBB, 0x55, 0, 0, 0] = Inl BadMagic \<and>
   decode [0xAA, 0x55, 1, 2, 9, 9] = Inl IncompletePacket \<and>
   decode [0xAA, 0x55, 1, 2, 9, 9, 0] = Inl ChecksumMismatch \<and>
   decode [0xAA, 0x55, 1, 2, 9, 9, 3] = Inr (1, [9, 9])"
proof -
  have "decode [0xAA, 0x55, 7] = Inl PacketTooShort"
    using decode_error_taxonomy[of "[0xAA, 0x55, 7]"] by simp
  moreover have "decode [0xBB, 0x55, 0, 0, 0] = Inl BadMagic"
    using decode_error_taxonomy[of "[0xBB, 0x55, 0, 0, 0]"] by simp
  moreover have "decode [0xAA, 0x55, 1, 2, 9, 9] = Inl IncompletePacket"
    using decode_error_taxonomy[of "[0xAA, 0x55, 1, 2, 9, 9]"] by simp
  moreover have "decode [0xAA, 0x55, 1, 2, 9, 9, 0] = Inl ChecksumMismatch"
    using decode_error_taxonomy[of "[0xAA, 0x55, 1, 2, 9, 9, 0]"] by simp
  moreover have "decode [0xAA, 0x55, 1, 2, 9, 9, 3] = Inr (1, [9, 9])"
    using decode_error_taxonomy[of "[0xAA, 0x55, 1, 2, 9, 9, 3]" "(1, [9, 9])"] by simp
  ultimately show ?thesis by simp
qed

text \<open>
  Claim C10. Short-form \<open>decode\<close> reads only a prefix of its input: when \<open>decode\<close> succeeds on
  a buffer, appending any bytes to the buffer leaves the result unchanged.
\<close>

theorem decode_ignores_trailing_bytes:
  assumes "decode packet = Inr r"
  shows "decode (packet @ junk) = Inr r"
proof -
  from assms have len: "5 \<le> length packet"
    by (simp add: decode_alt split: if_splits)
  from assms len have fit: "5 + unat (packet ! 3) \<le> length packet"
    by (simp add: decode_alt split: if_splits)
  have "take (unat (packet ! 3)) (drop 4 (packet @ junk)) = take (unat (packet ! 3)) (drop 4 packet)"
    using fit by simp
  moreover have "(packet @ junk) ! (4 + unat (packet ! 3)) = packet ! (4 + unat (packet ! 3))"
    using fit by (simp add: nth_append)
  moreover have "(packet @ junk) ! 0 = packet ! 0" "(packet @ junk) ! 1 = packet ! 1"
    "(packet @ junk) ! 2 = packet ! 2" "(packet @ junk) ! 3 = packet ! 3"
    using len by (auto simp: nth_append)
  ultimately show ?thesis
    using assms len fit
    by (simp add: decode_alt[of "packet @ junk"] decode_alt[of packet] split: if_splits)
qed

theorem decode_ignores_trailing_bytes_witness:
  "decode [0xAA, 0x55, 0x10, 0, 0x10] = Inr (0x10, []) \<and>
   decode ([0xAA, 0x55, 0x10, 0, 0x10] @ [0xDE, 0xAD]) = Inr (0x10, [])"
proof -
  have d: "decode [0xAA, 0x55, 0x10, 0, 0x10] = Inr (0x10, [])"
    by (simp add: decode_alt)
  from decode_ignores_trailing_bytes[OF d, of "[0xDE, 0xAD]"] d show ?thesis by simp
qed

lemma flip_changes_byte: "k < 8 \<Longrightarrow> x XOR push_bit k 1 \<noteq> (x::byte)"
proof
  assume k: "k < 8" and "x XOR push_bit k 1 = x"
  then have "x XOR (x XOR push_bit k 1) = x XOR x" by simp
  then have "(push_bit k 1 :: byte) = 0" by (simp flip: xor.assoc)
  then have "(2 ^ k :: byte) = 0" by simp
  with k show False by simp
qed

lemma fold_xor_shift:
  "fold (\<lambda>b c. c XOR b) p (x XOR d) = fold (\<lambda>b c. c XOR b) p (x::byte) XOR d"
  unfolding fold_xor_foldr by (simp add: ac_simps)

lemma fold_xor_update:
  "j < length p \<Longrightarrow>
     fold (\<lambda>b c. c XOR b) (p[j := p ! j XOR d]) (x::byte) = fold (\<lambda>b c. c XOR b) p x XOR d"
proof (induction p arbitrary: j x)
  case Nil
  then show ?case by simp
next
  case (Cons a p)
  show ?case
  proof (cases j)
    case 0
    have "fold (\<lambda>b c. c XOR b) ((a XOR d) # p) x = fold (\<lambda>b c. c XOR b) p ((x XOR a) XOR d)"
      by (simp add: xor.assoc)
    also have "\<dots> = fold (\<lambda>b c. c XOR b) p (x XOR a) XOR d"
      by (rule fold_xor_shift)
    finally show ?thesis using 0 by simp
  next
    case (Suc j')
    with Cons show ?thesis by simp
  qed
qed

lemma decode_success:
  assumes "decode b = Inr (cmd, payload)"
  shows "5 + unat (b ! 3) \<le> length b" and "b ! 0 = 0xAA" and "b ! 1 = 0x55"
    and "b ! (4 + unat (b ! 3)) =
           fold (\<lambda>b c. c XOR b) (take (unat (b ! 3)) (drop 4 b)) (b ! 2 XOR b ! 3)"
    and "cmd = uint (b ! 2)" and "payload = take (unat (b ! 3)) (drop 4 b)"
    and "length payload = unat (b ! 3)"
  using assms by (auto simp: decode_alt split: if_splits)

text \<open>
  Claim C9, as amended. For every short-form buffer that decodes successfully, flipping a
  single bit of the command byte, of a payload byte or of the checksum byte makes \<open>decode\<close>
  fail with \<open>ChecksumMismatch\<close>; flipping a bit of one of the two magic bytes makes it fail
  with \<open>BadMagic\<close>; flipping a bit behind the checksum byte leaves the result unchanged.
  Nothing is promised for a flip in the length byte.
\<close>

theorem single_bit_flip_detection:
  assumes ok: "decode b = Inr (cmd, payload)" and i: "i < length b" and k: "k < 8"
  shows "(i < 2 \<longrightarrow> decode (flip_bit_at b i k) = Inl BadMagic) \<and>
         (i = 2 \<or> (4 \<le> i \<and> i \<le> 4 + length payload) \<longrightarrow>
            decode (flip_bit_at b i k) = Inl ChecksumMismatch) \<and>
         (4 + length payload < i \<longrightarrow> decode (flip_bit_at b i k) = Inr (cmd, payload))"
proof -
  define d :: byte where "d = push_bit k 1"
  define n where "n = unat (b ! 3)"
  define b' where "b' = b[i := b ! i XOR d]"
  note s = decode_success[OF ok, folded n_def]
  have neq: "\<And>x. x XOR d \<noteq> x" using flip_changes_byte[OF k] by (simp add: d_def)
  have neq': "\<And>x. x \<noteq> x XOR d" using neq by metis
  have fl: "flip_bit_at b i k = b'" by (simp add: flip_bit_at_def b'_def d_def)
  have len: "length b' = length b" by (simp add: b'_def)
  have magic: "i < 2 \<Longrightarrow> decode b' = Inl BadMagic"
  proof -
    assume "i < 2"
    then consider "i = 0" | "i = 1" by linarith
    then show ?thesis
    proof cases
      case 1
      then have "b' ! 0 = 0xAA XOR d" using i s(2) by (simp add: b'_def)
      then have "b' ! 0 \<noteq> 0xAA" using neq by simp
      with s(1) show ?thesis by (simp add: decode_alt[of b'] len)
    next
      case 2
      then have "b' ! 1 = 0x55 XOR d" using i s(3) by (simp add: b'_def)
      then have "b' ! 1 \<noteq> 0x55" using neq by simp
      with s(1) show ?thesis by (simp add: decode_alt[of b'] len)
    qed
  qed
  have hd: "2 \<le> i \<Longrightarrow> b' ! 0 = 0xAA \<and> b' ! 1 = 0x55" using s(2,3) by (simp add: b'_def)
  have cmdflip: "i = 2 \<Longrightarrow> decode b' = Inl ChecksumMismatch"
  proof -
    assume i2: "i = 2"
    have 1: "b' ! 2 = b ! 2 XOR d" "b' ! 3 = b ! 3" "b' ! (4 + n) = b ! (4 + n)"
      "take n (drop 4 b') = take n (drop 4 b)"
      using i2 i by (simp_all add: b'_def)
    have "(b ! 2 XOR d) XOR b ! 3 = (b ! 2 XOR b ! 3) XOR d"
      by (simp add: ac_simps)
    then have "fold (\<lambda>b c. c XOR b) (take n (drop 4 b)) ((b ! 2 XOR d) XOR b ! 3)
        = fold (\<lambda>b c. c XOR b) (take n (drop 4 b)) (b ! 2 XOR b ! 3) XOR d"
      by (simp only: fold_xor_shift)
    with s(1,4) hd i2 neq' show ?thesis
      by (simp add: decode_alt[of b'] len 1 flip: n_def)
  qed
  have payflip: "4 \<le> i \<Longrightarrow> i < 4 + n \<Longrightarrow> decode b' = Inl ChecksumMismatch"
  proof -
    assume lo: "4 \<le> i" and hi: "i < 4 + n"
    have 1: "b' ! 2 = b ! 2" "b' ! 3 = b ! 3" "b' ! (4 + n) = b ! (4 + n)"
      using lo hi by (simp_all add: b'_def)
    have el: "take n (drop 4 b) ! (i - 4) = b ! i" and il: "i - 4 < length (take n (drop 4 b))"
      using lo hi s(1) by simp_all
    have "take n (drop 4 b') = (take n (drop 4 b))[i - 4 := b ! i XOR d]"
      using lo hi i by (simp add: b'_def drop_update_swap take_update_swap)
    then have "take n (drop 4 b') = (take n (drop 4 b))[i - 4 := take n (drop 4 b) ! (i - 4) XOR d]"
      by (simp only: el)
    then have "fold (\<lambda>b c. c XOR b) (take n (drop 4 b')) (b ! 2 XOR b ! 3)
        = fold (\<lambda>b c. c XOR b) (take n (drop 4 b)) (b ! 2 XOR b ! 3) XOR d"
      using fold_xor_update[OF il] by simp
    with s(1,4) hd lo neq' show ?thesis
      by (simp add: decode_alt[of b'] len 1 flip: n_def)
  qed
  have crcflip: "i = 4 + n \<Longrightarrow> decode b' = Inl ChecksumMismatch"
  proof -
    assume e: "i = 4 + n"
    have 1: "b' ! 2 = b ! 2" "b' ! 3 = b ! 3" "b' ! (4 + n) = b ! (4 + n) XOR d"
      "take n (drop 4 b') = take n (drop 4 b)"
      using e i by (simp_all add: b'_def drop_update_swap)
    with s(1,4) hd e neq show ?thesis
      by (simp add: decode_alt[of b'] len 1 flip: n_def)
  qed
  have junkflip: "4 + n < i \<Longrightarrow> decode b' = Inr (cmd, payload)"
  proof -
    assume e: "4 + n < i"
    have 1: "b' ! 2 = b ! 2" "b' ! 3 = b ! 3" "b' ! (4 + n) = b ! (4 + n)"
      "take n (drop 4 b') = take n (drop 4 b)"
      using e i by (simp_all add: b'_def drop_update_swap)
    with s hd e show ?thesis
      by (simp add: decode_alt[of b'] len 1 flip: n_def)
  qed
  from magic cmdflip payflip crcflip junkflip show ?thesis
    unfolding fl s(7) by (metis le_neq_implies_less)
qed


theorem single_bit_flip_detection_witness:
  "decode [0xAA, 0x55, 1, 2, 9, 9, 3] = Inr (1, [9, 9]) \<and>
   (4::nat) < length [0xAA, 0x55, 1, 2, 9, 9, 3 :: byte] \<and> (0::nat) < 8 \<and>
   decode (flip_bit_at [0xAA, 0x55, 1, 2, 9, 9, 3] 4 0) = Inl ChecksumMismatch"
proof -
  have d: "decode [0xAA, 0x55, 1, 2, 9, 9, 3] = Inr (1, [9, 9])"
    by (simp add: decode_alt)
  from single_bit_flip_detection[OF d, of 4 0] d show ?thesis by simp
qed

text \<open>
  The NOP packet \<open>AA 55 00 00 00\<close> decodes; with the lowest bit of its first byte flipped
  it fails with \<open>BadMagic\<close>, and with the lowest bit of its length byte flipped it fails
  with \<open>IncompletePacket\<close>: neither failure is \<open>ChecksumMismatch\<close>, and neither flip
  preserves the checksum.
\<close>

theorem single_bit_flip_counterexample:
  "decode [0xAA, 0x55, 0, 0, 0] = Inr (0, []) \<and>
   decode (flip_bit_at [0xAA, 0x55, 0, 0, 0] 0 0) = Inl BadMagic \<and>
   decode (flip_bit_at [0xAA, 0x55, 0, 0, 0] 3 0) = Inl IncompletePacket"
  by (simp add: decode_alt flip_bit_at_def)

text \<open>A flip in the length byte can go undetected.\<close>

lemma length_flip_undetected:
  "decode [0xAA, 0x55, 0, 1, 0, 1] = Inr (0, [0]) \<and>
   decode (flip_bit_at [0xAA, 0x55, 0, 1, 0, 1] 3 0) = Inr (0, [])"
  by (simp add: decode_alt flip_bit_at_def)

section \<open>Properties of the extended form\<close>

lemma and_ffff: "(x::int) AND 0xFFFF = x mod 65536"
proof -
  have "x AND mask 16 = x mod 2 ^ 16"
    by (simp only: take_bit_eq_mask[symmetric] take_bit_eq_mod)
  then show ?thesis by (simp add: mask_eq_exp_minus_1)
qed

lemma fold_add_uint: "fold (\<lambda>b total. total + uint b) data a = a + sum_list (map uint data)"
  by (induction data arbitrary: a) simp_all

lemma calc_checksum_sum: "calc_checksum data = sum_list (map uint data) mod 65536"
  unfolding calc_checksum_def by (simp only: and_ffff fold_add_uint) simp

lemma header_pack_bytes:
  assumes "0 \<le> mt" "mt \<le> 65535" "0 \<le> plen" "plen \<le> 65535" "0 \<le> fnum" "fnum \<le> 65535"
    and "0 \<le> fidx" "fidx \<le> 255" "0 \<le> ftot" "ftot \<le> 255"
  shows "PacketHeader_pack (PacketHeader_init mt plen fnum fidx ftot) =
           Inr [0xAA, 0x55, 0xCC, word_of_int (mt mod 256), word_of_int (mt div 256),
                word_of_int (plen mod 256), word_of_int (plen div 256),
                word_of_int (fnum mod 256), word_of_int (fnum div 256),
                word_of_int fidx, word_of_int ftot]"
  using assms
  by (simp add: PacketHeader_pack_def PacketHeader_init_def header_fmt_def
      SYNC_BYTE_1_def SYNC_BYTE_2_def SYNC_BYTE_3_def)

lemma header_pack_error:
  "PacketHeader_pack h = Inl e \<Longrightarrow> e = StructError"
  by (auto simp: PacketHeader_pack_def header_fmt_def split: if_splits sum.splits)

lemma header_pack_fails:
  assumes "65535 < plen"
  shows "PacketHeader_pack (PacketHeader_init mt plen fnum fidx ftot) = Inl StructError"
  using assms
  by (simp add: PacketHeader_pack_def PacketHeader_init_def header_fmt_def
      SYNC_BYTE_1_def SYNC_BYTE_2_def SYNC_BYTE_3_def split: sum.splits)

lemma footer_pack_bytes:
  "PacketFooter_pack (PacketFooter_init (x AND 0xFFFF)) =
     Inr [word_of_int ((x mod 65536) mod 256), word_of_int ((x mod 65536) div 256), 0x55]"
proof -
  have "0 \<le> x mod 65536" "x mod 65536 \<le> 65535" by simp_all
  then show ?thesis
    by (simp add: PacketFooter_pack_def PacketFooter_init_def END_BYTE_def and_ffff)
qed

lemma build_packet_ok:
  assumes "0 \<le> mt" "mt \<le> 65535" "length payload \<le> 65535" "0 \<le> fnum" "fnum \<le> 65535"
    and "0 \<le> fidx" "fidx \<le> 255" "0 \<le> ftot" "ftot \<le> 255"
    and hb: "hb = [0xAA, 0x55, 0xCC, word_of_int (mt mod 256), word_of_int (mt div 256),
                word_of_int (int (length payload) mod 256), word_of_int (int (length payload) div 256),
                word_of_int (fnum mod 256), word_of_int (fnum div 256),
                word_of_int fidx, word_of_int ftot]"
    and cs: "cs = (sum_list (map uint hb) + sum_list (map uint payload)) mod 65536"
  shows "build_packet mt payload fnum fidx ftot =
           Inr (hb @ payload @ [word_of_int (cs mod 256), word_of_int (cs div 256), 0x55])"
proof -
  have h: "PacketHeader_pack (PacketHeader_init mt (int (length payload)) fnum fidx ftot) = Inr hb"
    unfolding hb using assms(1-9) by (intro header_pack_bytes) simp_all
  have c: "(calc_checksum hb + calc_checksum payload) mod 65536 = cs"
    unfolding cs calc_checksum_sum by (simp add: mod_simps)
  show ?thesis
    unfolding build_packet_def Let_def h
    by (simp only: sum.case footer_pack_bytes c)
qed

text \<open>
  Claim C3 says that \<open>build_packet\<close> emits a 10-byte header
  \<open>AA 55 CC msgType:u8 payloadLen:u16 frameNum:u16 fragIndex:u8 fragTotal:u8\<close> before the
  payload, the 16-bit sum of header and payload bytes and the end byte \<open>55\<close>. The format
  string of \<open>PacketHeader.pack\<close> has three \<open>H\<close> codes where this layout has two, so the
  message type takes two bytes and the header eleven: a PING with an empty payload is
  14 bytes long, not 13.
\<close>

theorem build_packet_header_width:
  "build_packet (MsgType_value PING) [] 0 0 1 =
     Inr [0xAA, 0x55, 0xCC, 0x01, 0x00, 0x00, 0x00, 0x00, 0x00, 0x00, 0x01, 0xCD, 0x01, 0x55] \<and>
   calcsize header_fmt = 11 \<and> PacketHeader_SIZE = 10"
proof -
  have "build_packet 0x01 [] 0 0 1 =
     Inr [0xAA, 0x55, 0xCC, 0x01, 0x00, 0x00, 0x00, 0x00, 0x00, 0x00, 0x01, 0xCD, 0x01, 0x55]"
    by (subst build_packet_ok[OF _ _ _ _ _ _ _ _ _ refl refl]) simp_all
  then show ?thesis
    by (simp add: calcsize_def header_fmt_def PacketHeader_SIZE_def)
qed

lemma build_packet_error: "build_packet mt payload fnum fidx ftot = Inl e \<Longrightarrow> e = StructError"
  unfolding build_packet_def Let_def
  by (auto simp: footer_pack_bytes split: sum.splits dest: header_pack_error)

lemma build_packet_shape:
  assumes "0 \<le> mt" "mt \<le> 65535" "length payload \<le> 65535" "0 \<le> fnum" "fnum \<le> 65535"
    and "0 \<le> fidx" "fidx \<le> 255" "0 \<le> ftot" "ftot \<le> 255"
  shows "\<exists>hb fb. PacketHeader_pack (PacketHeader_init mt (int (length payload)) fnum fidx ftot) = Inr hb
           \<and> length fb = 3 \<and> build_packet mt payload fnum fidx ftot = Inr (hb @ payload @ fb)"
proof -
  have "PacketHeader_pack (PacketHeader_init mt (int (length payload)) fnum fidx ftot) =
          Inr [0xAA, 0x55, 0xCC, word_of_int (mt mod 256), word_of_int (mt div 256),
                word_of_int (int (length payload) mod 256), word_of_int (int (length payload) div 256),
                word_of_int (fnum mod 256), word_of_int (fnum div 256),
                word_of_int fidx, word_of_int ftot]"
    using assms by (intro header_pack_bytes) simp_all
  moreover note build_packet_ok[OF assms refl refl]
  ultimately show ?thesis by (metis length_Cons list.size(3) numeral_3_eq_3)
qed

lemma build_packet_too_long:
  assumes "65535 < length payload"
  shows "build_packet mt payload fnum fidx ftot = Inl StructError"
proof -
  have "PacketHeader_pack (PacketHeader_init mt (int (length payload)) fnum fidx ftot) = Inl StructError"
    using assms by (intro header_pack_fails) simp
  then show ?thesis by (simp add: build_packet_def)
qed

lemma bytes_of_error: "bytes_of vs = Inl e \<Longrightarrow> e = ByteRange"
  by (simp add: bytes_of_def split: if_splits)

lemma encode_too_large_iff: "encode cmd payload = Inl PayloadTooLarge \<longleftrightarrow> 255 < length payload"
  unfolding encode_def Let_def MAX_PAYLOAD_def
  by (auto split: sum.splits dest: bytes_of_error)

text \<open>
  Claim C8, as amended. Short-form \<open>encode\<close> fails with \<open>PayloadTooLarge\<close> exactly when the
  payload is longer than 255 bytes. Extended-form \<open>build_packet\<close> has no maximum of its own:
  it never fails with \<open>PayloadTooLarge\<close>, and with header fields in range it returns a
  packet for every payload of at most 65535 bytes, failing (with \<open>struct.error\<close>, from the
  16-bit length field) exactly when the payload is longer. Both are functions of their
  arguments alone: the failure is the result of that one call.
\<close>

theorem payload_too_large:
  "(encode cmd payload = Inl PayloadTooLarge \<longleftrightarrow> 255 < length payload) \<and>
   build_packet mt payload fnum fidx ftot \<noteq> Inl PayloadTooLarge \<and>
   (0 \<le> mt \<and> mt \<le> 65535 \<and> 0 \<le> fnum \<and> fnum \<le> 65535 \<and>
    0 \<le> fidx \<and> fidx \<le> 255 \<and> 0 \<le> ftot \<and> ftot \<le> 255 \<longrightarrow>
      ((\<exists>pkt. build_packet mt payload fnum fidx ftot = Inr pkt) \<longleftrightarrow> length payload \<le> 65535) \<and>
      (build_packet mt payload fnum fidx ftot = Inl StructError \<longleftrightarrow> 65535 < length payload))"
proof (intro conjI impI)
  show "encode cmd payload = Inl PayloadTooLarge \<longleftrightarrow> 255 < length payload"
    by (rule encode_too_large_iff)
  show "build_packet mt payload fnum fidx ftot \<noteq> Inl PayloadTooLarge"
    using build_packet_error by fastforce
next
  assume r: "0 \<le> mt \<and> mt \<le> 65535 \<and> 0 \<le> fnum \<and> fnum \<le> 65535 \<and>
    0 \<le> fidx \<and> fidx \<le> 255 \<and> 0 \<le> ftot \<and> ftot \<le> 255"
  show "(\<exists>pkt. build_packet mt payload fnum fidx ftot = Inr pkt) \<longleftrightarrow> length payload \<le> 65535"
  proof (cases "length payload \<le> 65535")
    case True
    with r build_packet_shape[of mt payload fnum fidx ftot] show ?thesis by auto
  next
    case False
    then show ?thesis using build_packet_too_long[of payload mt fnum fidx ftot] by simp
  qed
  show "build_packet mt payload fnum fidx ftot = Inl StructError \<longleftrightarrow> 65535 < length payload"
  proof (cases "length payload \<le> 65535")
    case True
    with r build_packet_shape[of mt payload fnum fidx ftot] show ?thesis by auto
  next
    case False
    then show ?thesis using build_packet_too_long[of payload mt fnum fidx ftot] by simp
  qed
qed

theorem payload_too_large_witness:
  "encode 1 (replicate 256 0) = Inl PayloadTooLarge \<and>
   (\<exists>pkt. build_packet 0x11 (replicate 1024 0) 7 3 12 = Inr pkt)"
  using payload_too_large[of 1 "replicate 256 0"]
        payload_too_large[of _ "replicate 1024 0" "0x11" 7 3 12]
  by simp

text \<open>
  \<open>build_packet\<close> returns a packet for a payload of 1025 bytes, one more than the fragment
  size \<open>FRAGMENT_SIZE = 1024\<close>.
\<close>

theorem payload_too_large_counterexample:
  "FRAGMENT_SIZE < length (replicate 1025 (0::byte)) \<and>
   build_packet 0x01 (replicate 1025 0) 0 0 1 =
     Inr ([0xAA, 0x55, 0xCC, 0x01, 0x00, 0x01, 0x04, 0x00, 0x00, 0x00, 0x01] @
          replicate 1025 0 @ [0xD2, 0x01, 0x55])"
  by (subst build_packet_ok[OF _ _ _ _ _ _ _ _ _ refl refl])
    (simp_all add: FRAGMENT_SIZE_def sum_list_replicate)

subsection \<open>Fragmentation\<close>




















subsection \<open>Reception\<close>

text \<open>
  \<open>PacketHeader.unpack\<close> hands \<open>struct.unpack\<close> the 10 bytes \<^verbatim>\<open>data[:10]\<close> with a format
  of 11 bytes, so it raises on every input, and \<open>receive_packet\<close> of
  run\_hardware\_tests\_v2.py never returns a packet.
\<close>

lemma header_unpack_raises:
  "PacketHeader_unpack data = Inl NotEnoughData \<or> PacketHeader_unpack data = Inl StructError"
proof -
  have "length (slice data 0 10) \<noteq> calcsize header_fmt"
    by (simp add: slice_def calcsize_def header_fmt_def)
  then have "struct_unpack header_fmt (slice data 0 10) = Inl StructError"
    by (simp add: struct_unpack_def)
  then show ?thesis by (simp add: PacketHeader_unpack_def)
qed

lemma receive_packet_v2_never_delivers:
  "fst (receive_packet_v2 self) \<in> {Inr None, Inl NotEnoughData, Inl StructError}"
proof -
  have 1: "PacketHeader_unpack d \<noteq> Inr y" for d y
    using header_unpack_raises[of d] by auto
  have 2: "e = NotEnoughData \<or> e = StructError" if "PacketHeader_unpack d = Inl e" for d e
    using header_unpack_raises[of d] that by auto
  show ?thesis
    unfolding receive_packet_v2_def Let_def
    by (auto split: option.splits sum.splits simp: 1 dest: 2)
qed

lemma footer_unpack_bytes:
  "3 \<le> length data \<Longrightarrow>
     PacketFooter_unpack data =
       Inr \<lparr>checksum = uint (data ! 0) + 256 * uint (data ! 1), end_byte = uint (data ! 2)\<rparr>"
proof -
  assume "3 \<le> length data"
  then obtain c0 c1 e rest where d: "data = c0 # c1 # e # rest"
    by (metis Suc_le_length_iff numeral_3_eq_3)
  show ?thesis
    by (simp add: d PacketFooter_unpack_def PacketFooter_SIZE_def struct_unpack_def slice_def
        calcsize_def PacketFooter_init_def)
qed

text \<open>
  Claim C7, as amended. \<open>PacketFooter.unpack\<close> does not validate the end marker: on a buffer
  of at least 3 bytes it returns, without an error, the footer whose checksum is the first
  two bytes read low byte first and whose \<open>end_byte\<close> is the third byte, whatever that
  byte is; on a shorter buffer it raises the not-enough-data \<open>ValueError\<close>.
\<close>

theorem end_marker_not_validated:
  "PacketFooter_unpack data =
     (if length data < 3 then Inl NotEnoughData
      else Inr \<lparr>checksum = uint (data ! 0) + 256 * uint (data ! 1), end_byte = uint (data ! 2)\<rparr>)"
proof (cases "length data < 3")
  case True
  then show ?thesis
    by (simp add: PacketFooter_unpack_def PacketFooter_SIZE_def)
next
  case False
  then have "3 \<le> length data" by simp
  then show ?thesis
    using False by (simp add: footer_unpack_bytes)
qed

theorem end_marker_not_validated_witness:
  "PacketFooter_unpack [0x34, 0x12, 0x00, 0xFF] = Inr \<lparr>checksum = 0x1234, end_byte = 0x00\<rparr> \<and>
   PacketFooter_unpack [0x34, 0x12, 0xA7] = Inr \<lparr>checksum = 0x1234, end_byte = 0xA7\<rparr> \<and>
   PacketFooter_unpack [0x34, 0x12] = Inl NotEnoughData"
  using end_marker_not_validated[of "[0x34, 0x12, 0x00, 0xFF]"]
        end_marker_not_validated[of "[0x34, 0x12, 0xA7]"]
        end_marker_not_validated[of "[0x34, 0x12]"]
  by simp

text \<open>
  A footer whose end byte is \<open>00\<close> is unpacked without an error. Reception of a PING in the
  10-byte layout with a matching checksum \<open>CD 01\<close> ends with \<open>struct.error\<close> from the header,
  the footer still unread on the port, with the end byte \<open>00\<close> as with the end byte \<open>55\<close>;
  and so does reception of the PING that \<open>build_packet\<close> emits, its end byte replaced by
  \<open>00\<close>. No failure is one of the end marker.
\<close>

theorem end_marker_counterexample:
  "PacketFooter_unpack [0xCD, 0x01, 0x00] = Inr \<lparr>checksum = 0x1CD, end_byte = 0x00\<rparr> \<and>
   0x00 \<noteq> END_BYTE \<and>
   receive_packet_v2
       \<lparr>connected = True, rx = [0xAA, 0x55, 0xCC, 0x01, 0, 0, 0, 0, 0, 1, 0xCD, 0x01, 0x00]\<rparr> =
     (Inl StructError, \<lparr>connected = True, rx = [0xCD, 0x01, 0x00]\<rparr>) \<and>
   receive_packet_v2
       \<lparr>connected = True, rx = [0xAA, 0x55, 0xCC, 0x01, 0, 0, 0, 0, 0, 1, 0xCD, 0x01, 0x55]\<rparr> =
     (Inl StructError, \<lparr>connected = True, rx = [0xCD, 0x01, 0x55]\<rparr>) \<and>
   receive_packet_v2
       \<lparr>connected = True, rx = [0xAA, 0x55, 0xCC, 0x01, 0, 0, 0, 0, 0, 0, 1, 0xCD, 0x01, 0x00]\<rparr> =
     (Inl StructError, \<lparr>connected = True, rx = [0x01, 0xCD, 0x01, 0x00]\<rparr>)"
proof -
  have f: "PacketFooter_unpack [0xCD, 0x01, 0x00] = Inr \<lparr>checksum = 0x1CD, end_byte = 0x00\<rparr>"
    using footer_unpack_bytes[of "[0xCD, 0x01, 0x00]"] by simp
  have u: "PacketHeader_unpack d = Inl StructError" if "10 \<le> length d" for d
  proof -
    have "length (slice d 0 10) \<noteq> calcsize header_fmt"
      by (simp add: slice_def calcsize_def header_fmt_def)
    then have "struct_unpack header_fmt (slice d 0 10) = Inl StructError"
      by (simp add: struct_unpack_def)
    with that show ?thesis by (simp add: PacketHeader_unpack_def PacketHeader_SIZE_def)
  qed
  show ?thesis
    by (simp add: f END_BYTE_def receive_packet_v2_def SYNC_BYTE_1_def SYNC_BYTE_2_def
        SYNC_BYTE_3_def PacketHeader_SIZE_def u)
qed

text \<open>
  Claim C6 says that a sync marker overlapping a failed partial match is still found, so
  that the stream \<open>AA AA 55 CC\<close> followed by the rest of a valid packet is received. Both
  search loops read the byte behind a first sync byte and drop it when it does not match,
  also when it is a first sync byte itself: the streams below hold a whole packet behind one
  stray \<open>AA\<close> (an extended PING in the 10-byte layout and as \<open>build_packet\<close> emits it, and
  the short-form packet \<open>AA 55 10 00 10\<close>), and nothing is received from them, while the
  short-form packet without the stray byte is received.
\<close>

theorem sync_overlap_lost:
  "seek_sync [0xAA, 0xAA, 0x55, 0xCC, 0x01, 0, 0, 0, 0, 0, 1, 0xCD, 0x01, 0x55] = None \<and>
   receive_packet_v2
       \<lparr>connected = True, rx = [0xAA, 0xAA, 0x55, 0xCC, 0x01, 0, 0, 0, 0, 0, 1, 0xCD, 0x01, 0x55]\<rparr> =
     (Inr None, \<lparr>connected = True, rx = []\<rparr>) \<and>
   receive_packet_v2
       \<lparr>connected = True, rx = [0xAA, 0xAA, 0x55, 0xCC, 0x01, 0, 0, 0, 0, 0, 0, 1, 0xCD, 0x01, 0x55]\<rparr> =
     (Inr None, \<lparr>connected = True, rx = []\<rparr>) \<and>
   seek_magic [0xAA, 0xAA, 0x55, 0x10, 0x00, 0x10] = None \<and>
   receive_packet \<lparr>connected = True, rx = [0xAA, 0xAA, 0x55, 0x10, 0x00, 0x10]\<rparr> =
     (None, \<lparr>connected = True, rx = []\<rparr>) \<and>
   receive_packet \<lparr>connected = True, rx = [0xAA, 0x55, 0x10, 0x00, 0x10]\<rparr> =
     (Some (0x10, []), \<lparr>connected = True, rx = []\<rparr>)"
  by (simp add: receive_packet_v2_def receive_packet_def SYNC_BYTE_1_def SYNC_BYTE_2_def
      SYNC_BYTE_3_def slice_def xor_bytes_def)

end
